theory Spec2Isabelle
  imports Main "HOL-Library.Char_ord" "HOL-Library.List_Lexorder" "HOL-Library.AList"
begin

section \<open>Text primitives of the Python runtime\<close>

text \<open>
  The clinical notes and the dictionary cells are read from CSV files with
  \<^verbatim>\<open>encoding='latin-1'\<close>, so every character of a text is a code point below 256:
  a \<^typ>\<open>char\<close>. The functions below are the Python built-ins that \<^verbatim>\<open>app.py\<close>
  calls, restricted to that range.
\<close>

definition isspace :: "char \<Rightarrow> bool" where
  \<comment> \<open>The characters that \<^verbatim>\<open>str.strip()\<close> removes and that \<^verbatim>\<open>\s\<close> matches in a
      \<^verbatim>\<open>str\<close> pattern: tab, line feed, vertical tab, form feed, carriage return, the
      separators 0x1C to 0x1F, space, NEL and the no-break space.\<close>
  "isspace c \<longleftrightarrow>
     c \<in> {CHR 0x09, CHR 0x0A, CHR 0x0B, CHR 0x0C, CHR 0x0D, CHR 0x1C, CHR 0x1D,
          CHR 0x1E, CHR 0x1F, CHR 0x20, CHR 0x85, CHR 0xA0}"

definition strip :: "string \<Rightarrow> string" where
  \<comment> \<open>\<^verbatim>\<open>s.strip()\<close>\<close>
  "strip s = rev (dropWhile isspace (rev (dropWhile isspace s)))"

definition lower_char :: "char \<Rightarrow> char" where
  \<comment> \<open>A to Z, and the accented capitals 0xC0 to 0xDE but for the multiplication
      sign 0xD7, move 32 places up; every other character stays.\<close>
  "lower_char c =
     (let n = (of_char c :: nat)
      in if (65 \<le> n \<and> n \<le> 90) \<or> (192 \<le> n \<and> n \<le> 222 \<and> n \<noteq> 215)
         then char_of (n + 32) else c)"

definition lower :: "string \<Rightarrow> string" where
  \<comment> \<open>\<^verbatim>\<open>s.lower()\<close>\<close>
  "lower s = map lower_char s"

fun str_split :: "char \<Rightarrow> string \<Rightarrow> string list" where
  \<comment> \<open>\<^verbatim>\<open>s.split(sep)\<close> for a one-character separator: the pieces between the
      separators, empty pieces kept, so the empty string gives one empty piece.\<close>
  "str_split sep [] = [[]]"
| "str_split sep (c # cs) =
     (if c = sep then [] # str_split sep cs
      else (case str_split sep cs of
              [] \<Rightarrow> [[c]]
            | p # ps \<Rightarrow> (c # p) # ps))"

section \<open>Text normalizer\<close>

text \<open>
  \<^verbatim>\<open>
  def clean_text(text):
      text = re.sub(r'([a-z])([A-Z])', r'\1. \2', text)
      text = re.sub(r'\s+', ' ', text)  # normalize spaces
      return text.strip()
  \<close>
\<close>

definition is_az :: "char \<Rightarrow> bool" where
  \<comment> \<open>the character class \<^verbatim>\<open>[a-z]\<close>\<close>
  "is_az c \<longleftrightarrow> CHR ''a'' \<le> c \<and> c \<le> CHR ''z''"

definition is_AZ :: "char \<Rightarrow> bool" where
  \<comment> \<open>the character class \<^verbatim>\<open>[A-Z]\<close>\<close>
  "is_AZ c \<longleftrightarrow> CHR ''A'' \<le> c \<and> c \<le> CHR ''Z''"

fun sub_case_boundary :: "string \<Rightarrow> string" where
  \<comment> \<open>\<^verbatim>\<open>re.sub(r'([a-z])([A-Z])', r'\1. \2', text)\<close>: the matches are found left to
      right and do not overlap; after a match the scan resumes behind its second
      character.\<close>
  "sub_case_boundary (a # b # rest) =
     (if is_az a \<and> is_AZ b then a # CHR ''.'' # CHR '' '' # b # sub_case_boundary rest
      else a # sub_case_boundary (b # rest))"
| "sub_case_boundary s = s"

function sub_whitespace :: "string \<Rightarrow> string" where
  \<comment> \<open>\<^verbatim>\<open>re.sub(r'\s+', ' ', text)\<close>: \<^verbatim>\<open>\s+\<close> is greedy, so a match is a maximal run
      of whitespace, replaced by one space.\<close>
  "sub_whitespace [] = []"
| "sub_whitespace (c # cs) =
     (if isspace c then CHR '' '' # sub_whitespace (dropWhile isspace cs)
      else c # sub_whitespace cs)"
  by pat_completeness auto
termination
  by (relation "measure length") (auto simp: length_dropWhile_le less_Suc_eq_le)

definition clean_text :: "string \<Rightarrow> string" where
  "clean_text t = strip (sub_whitespace (sub_case_boundary t))"

section \<open>Term dictionary builder\<close>

text \<open>
  \<^verbatim>\<open>
  def expand_terms(series):
      all_terms = []
      for cell in series.dropna():
          for term in str(cell).split(","):
              term = term.strip()
              if term:
                  all_terms.append(term)
      return sorted(set(all_terms))
  \<close>
  A cell of the series is a string or null (\<open>None\<close>). Python compares strings
  code point by code point, a proper prefix being smaller: the lexicographic order
  of \<^typ>\<open>string\<close>.
\<close>

definition dropna :: "string option list \<Rightarrow> string list" where
  "dropna series = List.map_filter (\<lambda>cell. cell) series"

definition cell_terms :: "string \<Rightarrow> string list" where
  \<comment> \<open>the inner loop: the trimmed, non-empty pieces of one cell, in order\<close>
  "cell_terms cell = filter (\<lambda>term. term \<noteq> []) (map strip (str_split CHR '','' cell))"

definition expand_terms :: "string option list \<Rightarrow> string list" where
  "expand_terms series =
     (let all_terms = concat (map cell_terms (dropna series))
      in sorted_list_of_set (set all_terms))"

section \<open>Medication merger\<close>

subsection \<open>Adjacency merge pass\<close>

text \<open>
  An entity span of the labeler's document (\<^verbatim>\<open>doc.ents\<close>): its label, its text
  and its token boundaries \<^verbatim>\<open>start\<close> and \<^verbatim>\<open>end\<close>.
\<close>

record span =
  label_of :: string
  text_of :: string
  start_of :: int
  end_of :: int

type_synonym entity = "string \<times> string"

text \<open>
  \<^verbatim>\<open>
  def merge_medication_entities(doc):
      merged = []
      skip_next = False
      for i, ent in enumerate(doc.ents):
          if skip_next:
              skip_next = False
              continue
          if i + 1 < len(doc.ents) and doc.ents[i+1].start == ent.end:
              merged_text = ent.text + " " + doc.ents[i+1].text
              merged.append((ent.label_, merged_text))
              skip_next = True
          else:
              merged.append((ent.label_, ent.text))
      return merged
  \<close>
  The loop runs over the enumerated spans; its state is \<open>skip_next\<close> and \<open>merged\<close>.
  The read \<^verbatim>\<open>doc.ents[i+1]\<close> is guarded by the bound test before it.
\<close>

fun merge_loop :: "span list \<Rightarrow> (nat \<times> span) list \<Rightarrow> bool \<Rightarrow> entity list \<Rightarrow> entity list" where
  "merge_loop ents [] skip_next merged = merged"
| "merge_loop ents ((i, ent) # rest) skip_next merged =
     (if skip_next then merge_loop ents rest False merged
      else if i + 1 < length ents \<and> start_of (ents ! (i + 1)) = end_of ent
      then (let merged_text = text_of ent @ '' '' @ text_of (ents ! (i + 1))
            in merge_loop ents rest True (merged @ [(label_of ent, merged_text)]))
      else merge_loop ents rest False (merged @ [(label_of ent, text_of ent)]))"

definition merge_medication_entities :: "span list \<Rightarrow> entity list" where
  "merge_medication_entities ents = merge_loop ents (enumerate 0 ents) False []"

text \<open>
  The merge pass as the specification words it: scan left to right; a span whose
  successor starts where it ends is emitted joined with that successor, under its own
  label, and the scan resumes behind the successor; any other span is emitted as it is.
\<close>

fun adjacency_merge :: "span list \<Rightarrow> entity list" where
  "adjacency_merge (a # b # rest) =
     (if start_of b = end_of a
      then (label_of a, text_of a @ '' '' @ text_of b) # adjacency_merge rest
      else (label_of a, text_of a) # adjacency_merge (b # rest))"
| "adjacency_merge [a] = [(label_of a, text_of a)]"
| "adjacency_merge [] = []"

subsection \<open>Record assembly pass\<close>

text \<open>
  A medication record is a Python dict from field names to texts. A dict keeps its
  keys in insertion order and an assignment to a present key replaces the value in
  place: an association list under \<^const>\<open>AList.update\<close>.
\<close>

type_synonym med = "(string \<times> string) list"

definition dict_get :: "med \<Rightarrow> string \<Rightarrow> string \<Rightarrow> string" where
  \<comment> \<open>\<^verbatim>\<open>m.get(key, default)\<close>\<close>
  "dict_get m key dflt = (case map_of m key of None \<Rightarrow> dflt | Some v \<Rightarrow> v)"

definition dict_set :: "med \<Rightarrow> string \<Rightarrow> string \<Rightarrow> med" where
  \<comment> \<open>\<^verbatim>\<open>m[key] = v\<close>\<close>
  "dict_set m key v = AList.update key v m"

datatype error = UnboundLocalError

text \<open>
  The value of the local variable \<^verbatim>\<open>current_med\<close>: Python's \<^verbatim>\<open>None\<close>, or a
  reference to one of the dicts of the list \<^verbatim>\<open>medications\<close>, given by its position
  (the variable and the list element are the same object, so a write through the
  variable is a write to that element). The function never assigns the variable
  before the loop: until the first assignment it is unbound (\<open>None\<close> below), and
  reading it raises \<^verbatim>\<open>UnboundLocalError\<close>.
\<close>

datatype pyref = PyNone | DictRef nat

record state =
  medications :: "med list"
  current_med :: "pyref option"

definition INVALID_DRUGS :: "string set" where
  "INVALID_DRUGS = {''generic''}"

definition ATTRIBUTE_LABELS :: "string list" where
  "ATTRIBUTE_LABELS = [''STRENGTH'', ''FORM'', ''DOSAGE'', ''ROUTE'', ''FREQUENCY'', ''DURATION'']"

fun next_index :: "('a \<Rightarrow> bool) \<Rightarrow> 'a list \<Rightarrow> nat option" where
  \<comment> \<open>\<^verbatim>\<open>next((m for m in ms if P(m)), None)\<close>: the first element that satisfies
      \<open>P\<close>, as its position, or \<open>None\<close>.\<close>
  "next_index P [] = None"
| "next_index P (m # ms) = (if P m then Some 0 else map_option Suc (next_index P ms))"

text \<open>
  \<^verbatim>\<open>
      for label, ent_text in ents:
          if label == "DRUG":
              drug_name = ent_text.strip()
              if drug_name.lower() in INVALID_DRUGS:
                  continue
              # Check if drug already exists
              existing = next((m for m in medications
                               if m.get("drug", "").lower() == drug_name.lower()), None)
              if existing:
                  current_med = existing  # merge details into this dict
              else:
                  current_med = {"drug": drug_name}
                  medications.append(current_med)
          elif label in ["STRENGTH", "FORM", "DOSAGE", "ROUTE", "FREQUENCY", "DURATION"]:
              if current_med is not None:
                  # Merge new details without overwriting existing ones
                  current_med[label.lower()] = ent_text
  \<close>
  \<^verbatim>\<open>if existing:\<close> is the truth value of \<open>existing\<close>: false for \<^verbatim>\<open>None\<close> and for an
  empty dict.
\<close>

definition start_record :: "state \<Rightarrow> string \<Rightarrow> state" where
  \<comment> \<open>the \<^verbatim>\<open>else\<close> branch: a new dict, appended, becomes the current record\<close>
  "start_record s drug_name =
     \<lparr>medications = medications s @ [[(''drug'', drug_name)]],
      current_med = Some (DictRef (length (medications s)))\<rparr>"

definition step :: "state \<Rightarrow> entity \<Rightarrow> error + state" where
  "step s e =
     (let label = fst e; ent_text = snd e in
      if label = ''DRUG'' then
        (let drug_name = strip ent_text in
         if lower drug_name \<in> INVALID_DRUGS then Inr s
         else
           (case next_index (\<lambda>m. lower (dict_get m ''drug'' '''') = lower drug_name)
                   (medications s) of
              None \<Rightarrow> Inr (start_record s drug_name)
            | Some i \<Rightarrow>
                if medications s ! i \<noteq> []
                then Inr (s\<lparr>current_med := Some (DictRef i)\<rparr>)
                else Inr (start_record s drug_name)))
      else if label \<in> set ATTRIBUTE_LABELS then
        (case current_med s of
           None \<Rightarrow> Inl UnboundLocalError
         | Some PyNone \<Rightarrow> Inr s
         | Some (DictRef i) \<Rightarrow>
             Inr (s\<lparr>medications :=
                      (medications s)[i := dict_set (medications s ! i) (lower label) ent_text]\<rparr>))
      else Inr s)"

fun loop :: "state \<Rightarrow> entity list \<Rightarrow> error + state" where
  "loop s [] = Inr s"
| "loop s (e # ents) = (case step s e of Inl err \<Rightarrow> Inl err | Inr s' \<Rightarrow> loop s' ents)"

definition assemble :: "entity list \<Rightarrow> error + med list option" where
  \<comment> \<open>lines 55 to 77: the loop from the empty list and the unbound variable, then
      \<^verbatim>\<open>return medications or None\<close>\<close>
  "assemble ents =
     (case loop \<lparr>medications = [], current_med = None\<rparr> ents of
        Inl err \<Rightarrow> Inl err
      | Inr s \<Rightarrow> Inr (if medications s = [] then None else Some (medications s)))"

text \<open>
  \<^verbatim>\<open>
  def extract_medications(text):
      cleaned_text = clean_text(text)
      doc_med = nlp_med7(cleaned_text)
      ents = merge_medication_entities(doc_med)
      ...
  \<close>
  The labeler \<^verbatim>\<open>nlp_med7\<close> is a loaded model: a parameter, giving the entity spans of
  the document it makes of a text.
\<close>

definition extract_medications :: "(string \<Rightarrow> span list) \<Rightarrow> string \<Rightarrow> error + med list option" where
  "extract_medications nlp_med7 text =
     (let cleaned_text = clean_text text;
          doc_med = nlp_med7 cleaned_text;
          ents = merge_medication_entities doc_med
      in assemble ents)"

section \<open>Dictionary test extractor\<close>

text \<open>
  \<^verbatim>\<open>
  def extract_tests(text, pathology_terms, radiology_terms):
      matcher = PhraseMatcher(nlp_general.vocab, attr="LOWER")
      if pathology_terms:
          matcher.add("PATHOLOGY TEST", [nlp_general.make_doc(t) for t in pathology_terms])
      if radiology_terms:
          matcher.add("RADIOLOGY TEST", [nlp_general.make_doc(t) for t in radiology_terms])
      cleaned_text = clean_text(text)
      doc = nlp_general(cleaned_text)
      matches = matcher(doc)
      patho, radio = [], []
      for match_id, start, end in matches:
          label = nlp_general.vocab.strings[match_id]
          span_text = doc[start:end].text
          if label == "PATHOLOGY TEST":
              patho.append(span_text)
          elif label == "RADIOLOGY TEST":
              radio.append(span_text)
      return list(set(patho)) or None, list(set(radio)) or None
  \<close>
  Two things are outside the program. The tokenizer and the phrase matcher of spaCy
  are the parameter \<open>phrase_matcher\<close>: from the entries added to the matcher (key and
  terms) and the text, the matches in order, each as the key it was added under and
  the text of the matched span. The order in which \<^verbatim>\<open>list\<close> reads a Python set is
  not fixed by the language: the parameter \<open>list_of\<close>.
\<close>

type_synonym matcher = "(string \<times> string list) list \<Rightarrow> string \<Rightarrow> (string \<times> string) list"

definition add_patterns :: "string list \<Rightarrow> string list \<Rightarrow> (string \<times> string list) list" where
  \<comment> \<open>the two guarded \<^verbatim>\<open>matcher.add\<close> calls\<close>
  "add_patterns pathology_terms radiology_terms =
     (if pathology_terms \<noteq> [] then [(''PATHOLOGY TEST'', pathology_terms)] else []) @
     (if radiology_terms \<noteq> [] then [(''RADIOLOGY TEST'', radiology_terms)] else [])"

fun bucket :: "(string \<times> string) list \<Rightarrow> string list \<times> string list \<Rightarrow> string list \<times> string list" where
  \<comment> \<open>the loop over the matches, on the pair \<open>(patho, radio)\<close>\<close>
  "bucket [] (patho, radio) = (patho, radio)"
| "bucket ((label, span_text) # matches) (patho, radio) =
     (if label = ''PATHOLOGY TEST'' then bucket matches (patho @ [span_text], radio)
      else if label = ''RADIOLOGY TEST'' then bucket matches (patho, radio @ [span_text])
      else bucket matches (patho, radio))"

definition or_None :: "'a list \<Rightarrow> 'a list option" where
  \<comment> \<open>\<^verbatim>\<open>xs or None\<close>\<close>
  "or_None xs = (if xs = [] then None else Some xs)"

definition extract_tests ::
  "matcher \<Rightarrow> (string set \<Rightarrow> string list) \<Rightarrow> string \<Rightarrow> string list \<Rightarrow> string list
     \<Rightarrow> string list option \<times> string list option" where
  "extract_tests phrase_matcher list_of text pathology_terms radiology_terms =
     (let patterns = add_patterns pathology_terms radiology_terms;
          cleaned_text = clean_text text;
          matches = phrase_matcher patterns cleaned_text;
          (patho, radio) = bucket matches ([], [])
      in (or_None (list_of (set patho)), or_None (list_of (set radio))))"

section \<open>Predicates of the statements\<close>

text \<open>
  What the properties below speak of: a text with two spaces in a row, a text with
  whitespace at one of its ends, and the key under which the record assembly looks a
  record up (\<^verbatim>\<open>m.get("drug", "").lower()\<close>).
\<close>

fun has_double_space :: "string \<Rightarrow> bool" where
  "has_double_space (a # b # rest) =
     ((a = CHR '' '' \<and> b = CHR '' '') \<or> has_double_space (b # rest))"
| "has_double_space s = False"

definition untrimmed :: "string \<Rightarrow> bool" where
  "untrimmed s \<longleftrightarrow> s \<noteq> [] \<and> (isspace (hd s) \<or> isspace (last s))"

definition drug_key :: "med \<Rightarrow> string" where
  "drug_key m = lower (dict_get m ''drug'' '''')"

text \<open>
  The invariant of the assembly loop: the keys of the records are pairwise different,
  no record carries a blocked name or lacks its \<^verbatim>\<open>drug\<close> field, and a bound
  \<^verbatim>\<open>current_med\<close> refers to a record of the list.
\<close>

definition well_formed :: "state \<Rightarrow> bool" where
  "well_formed s \<longleftrightarrow>
     distinct (map drug_key (medications s)) \<and>
     (\<forall>m \<in> set (medications s). drug_key m \<notin> INVALID_DRUGS \<and> map_of m ''drug'' \<noteq> None) \<and>
     (\<forall>i. current_med s = Some (DictRef i) \<longrightarrow> i < length (medications s))"

text \<open>The span texts that a run of the matcher reports under one key.\<close>

definition matched :: "string \<Rightarrow> (string \<times> string) list \<Rightarrow> string set" where
  "matched key matches = snd ` set (filter (\<lambda>(label, span_text). label = key) matches)"

text \<open>
  A matcher to run \<^const>\<open>extract_tests\<close> on concrete inputs, in place of spaCy's: it
  reports every space-separated word of the text that equals a term of an entry when
  both are lowercased, entry by entry.
\<close>

definition word_matcher :: matcher where
  "word_matcher patterns t =
     concat (map (\<lambda>(key, terms).
                    map (Pair key)
                      (filter (\<lambda>w. lower w \<in> lower ` set terms) (str_split CHR '' '' t)))
                 patterns)"

section \<open>Properties of the term dictionary builder\<close>

lemma set_dropna: "set (dropna series) = {cell. Some cell \<in> set series}"
  by (force simp: dropna_def List.map_filter_def image_iff)

lemma set_cell_terms:
  "set (cell_terms cell) = {strip p | p. p \<in> set (str_split CHR '','' cell) \<and> strip p \<noteq> []}"
  by (auto simp: cell_terms_def)

lemma expand_terms_example:
  "expand_terms [Some ''CBC, cbc ,Xray'', Some ''MRI''] = [''CBC'', ''MRI'', ''Xray'', ''cbc'']"
  by (simp add: expand_terms_def dropna_def cell_terms_def List.map_filter_def strip_def
      isspace_def sorted_list_of_set_sort_remdups)

text \<open>
  C3, as the claim states its example: on the rows \<^verbatim>\<open>["CBC, cbc ,Xray", "MRI"]\<close> the
  builder would yield exactly \<^verbatim>\<open>CBC, MRI, Xray\<close>. It does not: \<^verbatim>\<open>cbc\<close> differs from
  \<^verbatim>\<open>CBC\<close> as a string, and the set keeps both.
\<close>

theorem expand_terms_example_counterexample:
  "expand_terms [Some ''CBC, cbc ,Xray'', Some ''MRI''] \<noteq> [''CBC'', ''MRI'', ''Xray'']"
  by (simp add: expand_terms_def dropna_def cell_terms_def List.map_filter_def strip_def
      isspace_def sorted_list_of_set_sort_remdups)

text \<open>
  C3, amended: the result of the builder is sorted and free of duplicates, and its
  elements are exactly the trimmed, non-empty comma-separated pieces of the non-null
  rows, compared as they are written (case matters); on the rows
  \<^verbatim>\<open>["CBC, cbc ,Xray", "MRI"]\<close> it is \<^verbatim>\<open>CBC, MRI, Xray, cbc\<close>.
\<close>

theorem expand_terms_sorted_set:
  "sorted (expand_terms series) \<and> distinct (expand_terms series) \<and>
   set (expand_terms series) =
     {strip p | p cell.
        Some cell \<in> set series \<and> p \<in> set (str_split CHR '','' cell) \<and> strip p \<noteq> []} \<and>
   expand_terms [Some ''CBC, cbc ,Xray'', Some ''MRI''] = [''CBC'', ''MRI'', ''Xray'', ''cbc'']"
proof -
  have "set (expand_terms series) = (\<Union>cell \<in> set (dropna series). set (cell_terms cell))"
    by (simp add: expand_terms_def)
  also have "\<dots> = {strip p | p cell.
      Some cell \<in> set series \<and> p \<in> set (str_split CHR '','' cell) \<and> strip p \<noteq> []}"
    unfolding set_dropna set_cell_terms by blast
  finally have elems: "set (expand_terms series) = {strip p | p cell.
      Some cell \<in> set series \<and> p \<in> set (str_split CHR '','' cell) \<and> strip p \<noteq> []}" .
  have "sorted (expand_terms series)" "distinct (expand_terms series)"
    by (simp_all add: expand_terms_def)
  with elems expand_terms_example show ?thesis by simp
qed

section \<open>Properties of the medication merger\<close>

subsection \<open>The unbound current record\<close>

text \<open>
  C1: an attribute entity with no DRUG entity before it must be skipped or buffered and
  never abort the call. The code reads \<^verbatim>\<open>current_med\<close> in its guard
  \<^verbatim>\<open>if current_med is not None\<close> before any assignment to it: for a labeler that
  finds the single entity STRENGTH \<^verbatim>\<open>500mg\<close> the call raises.
\<close>

theorem orphan_attribute_raises:
  "extract_medications
     (\<lambda>cleaned_text. [\<lparr>label_of = ''STRENGTH'', text_of = ''500mg'', start_of = 1, end_of = 2\<rparr>])
     ''Take 500mg daily'' = Inl UnboundLocalError"
  by (simp add: extract_medications_def merge_medication_entities_def assemble_def step_def
      ATTRIBUTE_LABELS_def)

text \<open>
  C4: with no valid DRUG entity the call must return null. Here the only DRUG entity is
  the blocked name \<^verbatim>\<open>generic\<close>, so there is no valid drug, and the FORM entity behind it
  reads the unbound \<^verbatim>\<open>current_med\<close>: the call raises and returns nothing.
\<close>

theorem no_valid_drug_raises:
  "extract_medications
     (\<lambda>cleaned_text.
        [\<lparr>label_of = ''DRUG'', text_of = ''generic'', start_of = 0, end_of = 1\<rparr>,
         \<lparr>label_of = ''FORM'', text_of = ''tablet'', start_of = 2, end_of = 3\<rparr>])
     ''generic oral tablet'' = Inl UnboundLocalError"
  by code_simp

subsection \<open>Repeated attributes\<close>

text \<open>
  C2: a second attribute of the same label for the same record must be dropped, the
  field keeping its first value. The code assigns the field without a test: the
  record of Aspirin with the strengths \<^verbatim>\<open>500mg\<close> and then \<^verbatim>\<open>100mg\<close> ends with
  \<^verbatim>\<open>100mg\<close>.
\<close>

theorem duplicate_attribute_overwrites:
  "extract_medications
     (\<lambda>cleaned_text.
        [\<lparr>label_of = ''DRUG'', text_of = ''Aspirin'', start_of = 0, end_of = 1\<rparr>,
         \<lparr>label_of = ''STRENGTH'', text_of = ''500mg'', start_of = 2, end_of = 3\<rparr>,
         \<lparr>label_of = ''STRENGTH'', text_of = ''100mg'', start_of = 4, end_of = 5\<rparr>])
     ''Aspirin at 500mg or 100mg'' =
   Inr (Some [[(''drug'', ''Aspirin''), (''strength'', ''100mg'')]])"
  by code_simp

subsection \<open>The adjacency merge pass\<close>

lemma merge_loop_adjacency:
  "ents = pre @ xs \<Longrightarrow>
   merge_loop ents (enumerate (length pre) xs) False acc = acc @ adjacency_merge xs"
proof (induction xs arbitrary: pre acc rule: adjacency_merge.induct)
  case (1 a b rest)
  have nth: "ents ! (length pre + 1) = b" "length pre + 1 < length ents"
    using "1.prems" by (simp_all add: nth_append)
  show ?case
  proof (cases "start_of b = end_of a")
    case True
    have "ents = (pre @ [a, b]) @ rest" using "1.prems" by simp
    from "1.IH"(1)[OF True this] show ?thesis
      using True nth by (simp add: Let_def)
  next
    case False
    have "ents = (pre @ [a]) @ b # rest" using "1.prems" by simp
    from "1.IH"(2)[OF False this] show ?thesis
      using False nth by simp
  qed
next
  case (2 a)
  then show ?case by simp
next
  case 3
  then show ?case by simp
qed

text \<open>
  C6: the adjacency merge pass of the code is the scan the specification describes.
  Going left to right, a span whose successor starts at its own end boundary is
  emitted once, as its text, one space and the successor's text, under its own label,
  and the scan resumes behind the successor, which is thereby skipped and never
  offered to the span after it; any other span passes through unmerged.
\<close>

theorem merge_medication_entities_adjacency:
  "merge_medication_entities ents = adjacency_merge ents"
  using merge_loop_adjacency[of ents "[]" ents "[]"]
  by (simp add: merge_medication_entities_def)

text \<open>
  The example of the specification with a third span behind it: the first two spans
  are joined, and the joined entity is not joined again with the third.
\<close>

lemma merge_three_adjacent:
  "merge_medication_entities
     [\<lparr>label_of = ''DRUG'', text_of = ''Tab'', start_of = 0, end_of = 1\<rparr>,
      \<lparr>label_of = ''DRUG'', text_of = ''let'', start_of = 1, end_of = 2\<rparr>,
      \<lparr>label_of = ''FORM'', text_of = ''oral'', start_of = 2, end_of = 3\<rparr>] =
   [(''DRUG'', ''Tab let''), (''FORM'', ''oral'')]"
  by (simp add: merge_medication_entities_def)

subsection \<open>The record assembly pass\<close>

lemma next_index_None: "next_index P xs = None \<longleftrightarrow> (\<forall>x \<in> set xs. \<not> P x)"
  by (induction xs) auto

lemma next_index_Some: "next_index P xs = Some i \<Longrightarrow> i < length xs \<and> P (xs ! i)"
  by (induction xs arbitrary: i) (auto split: if_splits)

lemma lower_attribute_labels:
  "lower ''STRENGTH'' = ''strength''" "lower ''FORM'' = ''form''" "lower ''DOSAGE'' = ''dosage''"
  "lower ''ROUTE'' = ''route''" "lower ''FREQUENCY'' = ''frequency''" "lower ''DURATION'' = ''duration''"
  by code_simp+

lemma attribute_key_not_drug: "label \<in> set ATTRIBUTE_LABELS \<Longrightarrow> lower label \<noteq> ''drug''"
  by (auto simp: ATTRIBUTE_LABELS_def lower_attribute_labels)

lemma attribute_label_not_DRUG: "label \<in> set ATTRIBUTE_LABELS \<Longrightarrow> label \<noteq> ''DRUG''"
  by (auto simp: ATTRIBUTE_LABELS_def)

lemma map_of_dict_set: "map_of (dict_set m k v) = (map_of m)(k \<mapsto> v)"
  by (simp add: dict_set_def update_conv')

lemma drug_key_dict_set: "k \<noteq> ''drug'' \<Longrightarrow> drug_key (dict_set m k v) = drug_key m"
  by (simp add: drug_key_def dict_get_def map_of_dict_set)

lemma drug_key_new: "drug_key [(''drug'', d)] = lower d"
  by (simp add: drug_key_def dict_get_def)

lemma map_drug_key_update:
  "k \<noteq> ''drug'' \<Longrightarrow> map drug_key (ms[i := dict_set (ms ! i) k v]) = map drug_key ms"
  by (cases "i < length ms")
    (simp_all add: map_update drug_key_dict_set list_update_same_conv list_update_beyond)

text \<open>The ways a step can end without a fault, branch by branch of the source.\<close>

lemma step_cases:
  assumes "step s e = Inr s'"
  obtains
    (skip) "s' = s"
  | (resume) i where "s' = s\<lparr>current_med := Some (DictRef i)\<rparr>" "i < length (medications s)"
      "fst e = ''DRUG''" "drug_key (medications s ! i) = lower (strip (snd e))"
  | (start) "s' = start_record s (strip (snd e))" "fst e = ''DRUG''"
      "lower (strip (snd e)) \<notin> INVALID_DRUGS"
      "lower (strip (snd e)) \<notin> set (map drug_key (medications s)) \<or>
       (\<exists>i < length (medications s). medications s ! i = [])"
  | (attach) i where "current_med s = Some (DictRef i)" "fst e \<in> set ATTRIBUTE_LABELS"
      "s' = s\<lparr>medications :=
              (medications s)[i := dict_set (medications s ! i) (lower (fst e)) (snd e)]\<rparr>"
proof (cases "fst e = ''DRUG''")
  case True
  show ?thesis
  proof (cases "lower (strip (snd e)) \<in> INVALID_DRUGS")
    case inv: True
    with True assms have "s' = s" by (simp add: step_def)
    then show ?thesis by (rule skip)
  next
    case valid: False
    show ?thesis
    proof (cases "next_index (\<lambda>m. lower (dict_get m ''drug'' '''') = lower (strip (snd e))) (medications s)")
      case None
      with True valid assms have s': "s' = start_record s (strip (snd e))"
        by (simp add: step_def)
      from None have "lower (strip (snd e)) \<notin> set (map drug_key (medications s))"
        by (auto simp: next_index_None drug_key_def)
      with s' True valid show ?thesis by (intro start) simp_all
    next
      case (Some i)
      from next_index_Some[OF Some] have i: "i < length (medications s)"
        "drug_key (medications s ! i) = lower (strip (snd e))"
        by (simp_all add: drug_key_def)
      show ?thesis
      proof (cases "medications s ! i = []")
        case empty: True
        with Some True valid assms have "s' = start_record s (strip (snd e))"
          by (simp add: step_def)
        with True valid empty i show ?thesis by (intro start) auto
      next
        case False
        with Some True valid assms have "s' = s\<lparr>current_med := Some (DictRef i)\<rparr>"
          by (simp add: step_def)
        with i True show ?thesis by (intro resume)
      qed
    qed
  qed
next
  case False
  show ?thesis
  proof (cases "fst e \<in> set ATTRIBUTE_LABELS")
    case attr: True
    show ?thesis
    proof (cases "current_med s")
      case None
      with False attr assms show ?thesis by (simp add: step_def)
    next
      case (Some r)
      show ?thesis
      proof (cases r)
        case PyNone
        with Some False attr assms have "s' = s" by (simp add: step_def)
        then show ?thesis by (rule skip)
      next
        case (DictRef i)
        with Some False attr assms show ?thesis by (intro attach[of i]) (auto simp: step_def)
      qed
    qed
  next
    case other: False
    with False assms have "s' = s" by (simp add: step_def)
    then show ?thesis by (rule skip)
  qed
qed

lemma step_well_formed:
  assumes "well_formed s" "step s e = Inr s'"
  shows "well_formed s'"
  using assms(2)
proof (cases rule: step_cases)
  case skip
  with assms show ?thesis by simp
next
  case (resume i)
  with assms show ?thesis by (simp add: well_formed_def)
next
  case start
  have "medications s ! i \<noteq> []" if "i < length (medications s)" for i
  proof -
    from that have "medications s ! i \<in> set (medications s)" by simp
    with assms(1) have "map_of (medications s ! i) ''drug'' \<noteq> None"
      unfolding well_formed_def by blast
    then show ?thesis by auto
  qed
  then have "\<not> (\<exists>i < length (medications s). medications s ! i = [])" by blast
  with start have "lower (strip (snd e)) \<notin> set (map drug_key (medications s))" by blast
  with start assms(1) show ?thesis
    by (auto simp: well_formed_def start_record_def drug_key_new less_Suc_eq)
next
  case (attach i)
  let ?k = "lower (fst e)"
  have k: "?k \<noteq> ''drug''" using attach by (simp add: attribute_key_not_drug)
  have keys: "map drug_key (medications s') = map drug_key (medications s)"
    using attach k by (simp add: map_drug_key_update)
  have "drug_key m \<notin> INVALID_DRUGS \<and> map_of m ''drug'' \<noteq> None" if "m \<in> set (medications s')" for m
  proof -
    have "m \<in> set (medications s) \<or>
        m = dict_set (medications s ! i) ?k (snd e) \<and> i < length (medications s)"
    proof (cases "i < length (medications s)")
      case True
      from that attach(3)
      have "m \<in> set ((medications s)[i := dict_set (medications s ! i) ?k (snd e)])" by simp
      with True show ?thesis using set_update_subset_insert by fastforce
    next
      case False
      with that attach(3) show ?thesis by (simp add: list_update_beyond)
    qed
    then show ?thesis
    proof
      assume "m \<in> set (medications s)"
      with assms(1) show ?thesis by (auto simp: well_formed_def)
    next
      assume m: "m = dict_set (medications s ! i) ?k (snd e) \<and> i < length (medications s)"
      then have "medications s ! i \<in> set (medications s)" by simp
      with assms(1) have "drug_key (medications s ! i) \<notin> INVALID_DRUGS"
        "map_of (medications s ! i) ''drug'' \<noteq> None"
        by (auto simp: well_formed_def)
      with m k show ?thesis by (simp add: drug_key_dict_set map_of_dict_set)
    qed
  qed
  with keys assms(1) attach show ?thesis
    by (auto simp: well_formed_def)
qed

lemma loop_well_formed: "well_formed s \<Longrightarrow> loop s ents = Inr s' \<Longrightarrow> well_formed s'"
  by (induction ents arbitrary: s) (auto split: sum.splits dest: step_well_formed)

lemma well_formed_init: "well_formed \<lparr>medications = [], current_med = None\<rparr>"
  by (simp add: well_formed_def)

lemma step_keys_grow:
  assumes "step s e = Inr s'"
  shows "set (map drug_key (medications s)) \<subseteq> set (map drug_key (medications s'))"
  using assms
proof (cases rule: step_cases)
  case (attach i)
  then show ?thesis by (simp add: map_drug_key_update attribute_key_not_drug)
qed (auto simp: start_record_def)

lemma step_drug_recorded:
  assumes "step s (''DRUG'', name) = Inr s'" "lower (strip name) \<notin> INVALID_DRUGS"
  shows "lower (strip name) \<in> set (map drug_key (medications s'))"
proof (cases "next_index (\<lambda>m. lower (dict_get m ''drug'' '''') = lower (strip name)) (medications s)")
  case None
  with assms have "s' = start_record s (strip name)" by (simp add: step_def)
  then show ?thesis by (simp add: start_record_def drug_key_new)
next
  case (Some i)
  from next_index_Some[OF Some] have i: "i < length (medications s)"
    "drug_key (medications s ! i) = lower (strip name)"
    by (simp_all add: drug_key_def)
  show ?thesis
  proof (cases "medications s ! i = []")
    case True
    with Some assms have "s' = start_record s (strip name)" by (simp add: step_def)
    then show ?thesis by (simp add: start_record_def drug_key_new)
  next
    case False
    with Some assms have "medications s' = medications s" by (auto simp: step_def)
    with i show ?thesis by (metis nth_mem image_eqI set_map)
  qed
qed

lemma loop_keys_grow:
  "loop s ents = Inr s' \<Longrightarrow> set (map drug_key (medications s)) \<subseteq> set (map drug_key (medications s'))"
proof (induction ents arbitrary: s)
  case Nil
  then show ?case by simp
next
  case (Cons e ents)
  then obtain s1 where "step s e = Inr s1" "loop s1 ents = Inr s'"
    by (auto split: sum.splits)
  with Cons.IH[of s1] step_keys_grow[of s e s1] show ?case by blast
qed

lemma loop_drug_recorded:
  "loop s ents = Inr s' \<Longrightarrow> (''DRUG'', name) \<in> set ents \<Longrightarrow> lower (strip name) \<notin> INVALID_DRUGS \<Longrightarrow>
   lower (strip name) \<in> set (map drug_key (medications s'))"
proof (induction ents arbitrary: s)
  case Nil
  then show ?case by simp
next
  case (Cons e ents)
  then obtain s1 where s1: "step s e = Inr s1" "loop s1 ents = Inr s'"
    by (auto split: sum.splits)
  show ?case
  proof (cases "e = (''DRUG'', name)")
    case True
    with s1 Cons.prems step_drug_recorded[of s name s1] loop_keys_grow[of s1 ents s']
    show ?thesis by blast
  next
    case False
    with Cons s1 show ?thesis by auto
  qed
qed

text \<open>
  What the assembly returns: it raises on every sequence that starts with an attribute
  entity; it never returns the empty list; and when it returns null, every DRUG
  entity of the sequence had a blocked name.
\<close>

lemma assemble_orphan_attribute:
  "fst e \<in> set ATTRIBUTE_LABELS \<Longrightarrow> assemble (e # ents) = Inl UnboundLocalError"
  by (simp add: assemble_def step_def attribute_label_not_DRUG)

lemma assemble_never_empty_list: "assemble ents \<noteq> Inr (Some [])"
  by (auto simp: assemble_def split: sum.splits)

lemma assemble_None_no_valid_drug:
  assumes "assemble ents = Inr None" "(''DRUG'', name) \<in> set ents"
  shows "lower (strip name) \<in> INVALID_DRUGS"
proof (rule ccontr)
  assume valid: "lower (strip name) \<notin> INVALID_DRUGS"
  from assms(1) obtain s where s: "loop \<lparr>medications = [], current_med = None\<rparr> ents = Inr s"
    "medications s = []"
    by (auto simp: assemble_def split: sum.splits if_splits)
  from loop_drug_recorded[OF s(1) assms(2) valid] s(2) show False by simp
qed

lemma assemble_Some:
  assumes "assemble ents = Inr (Some meds)"
  obtains s where "loop \<lparr>medications = [], current_med = None\<rparr> ents = Inr s"
    "medications s = meds" "well_formed s"
proof -
  from assms obtain s where s: "loop \<lparr>medications = [], current_med = None\<rparr> ents = Inr s"
    "medications s = meds"
    by (auto simp: assemble_def split: sum.splits if_splits)
  with loop_well_formed[OF well_formed_init s(1)] that show ?thesis by blast
qed

text \<open>
  A DRUG entity whose lowercased name is already the key of a record appends nothing:
  that record becomes the current one, and the attributes behind the entity go to it.
\<close>

lemma step_resumes_existing:
  assumes "well_formed s" "lower (strip name) \<notin> INVALID_DRUGS"
    "i < length (medications s)" "drug_key (medications s ! i) = lower (strip name)"
  shows "step s (''DRUG'', name) = Inr (s\<lparr>current_med := Some (DictRef i)\<rparr>)"
proof -
  let ?P = "\<lambda>m. lower (dict_get m ''drug'' '''') = lower (strip name)"
  from assms(3,4) have "\<exists>m \<in> set (medications s). ?P m"
    by (auto simp: drug_key_def intro!: bexI[of _ "medications s ! i"])
  then obtain j where j: "next_index ?P (medications s) = Some j"
    using next_index_None[of ?P "medications s"] by (cases "next_index ?P (medications s)") auto
  from next_index_Some[OF j] have jj: "j < length (medications s)"
    "drug_key (medications s ! j) = lower (strip name)"
    by (simp_all add: drug_key_def)
  from assms(1) have "distinct (map drug_key (medications s))" by (simp add: well_formed_def)
  with jj assms(3,4) have "j = i"
    by (metis distinct_conv_nth length_map nth_map)
  from assms(1,3) have "map_of (medications s ! i) ''drug'' \<noteq> None"
    unfolding well_formed_def using nth_mem by blast
  then have "medications s ! i \<noteq> []" by auto
  with j \<open>j = i\<close> assms(2) show ?thesis by (simp add: step_def)
qed

lemma resume_example:
  "assemble [(''DRUG'', ''Aspirin''), (''DRUG'', ''Ibuprofen''), (''DRUG'', ''aspirin''),
             (''STRENGTH'', ''500mg'')] =
   Inr (Some [[(''drug'', ''Aspirin''), (''strength'', ''500mg'')], [(''drug'', ''Ibuprofen'')]])"
  by code_simp

lemma count_distinct_key:
  assumes "distinct (map f xs)" "k \<in> set (map f xs)"
  shows "length (filter (\<lambda>x. f x = k) xs) = 1"
proof -
  have "length (filter (\<lambda>x. f x = k) xs) = length (filter (\<lambda>y. y = k) (map f xs))"
    by (simp add: filter_map comp_def)
  also have "\<dots> = card ({y. y = k} \<inter> set (map f xs))"
    using assms(1) by (rule distinct_length_filter)
  also have "{y. y = k} \<inter> set (map f xs) = {k}" using assms(2) by auto
  finally show ?thesis by simp
qed

text \<open>
  C5: in every list that \<^const>\<open>extract_medications\<close> returns, the lowercased drug names
  are pairwise different; and a valid drug name that occurs among the DRUG entities,
  however often and in whatever casing, has exactly one record.
\<close>

theorem drug_unique_case_insensitive:
  assumes "extract_medications nlp_med7 text = Inr (Some meds)"
  shows "distinct (map drug_key meds) \<and>
    (\<forall>name. (''DRUG'', name) \<in> set (merge_medication_entities (nlp_med7 (clean_text text))) \<and>
             lower (strip name) \<notin> INVALID_DRUGS \<longrightarrow>
       length (filter (\<lambda>m. drug_key m = lower (strip name)) meds) = 1)"
proof -
  let ?ents = "merge_medication_entities (nlp_med7 (clean_text text))"
  from assms have "assemble ?ents = Inr (Some meds)"
    by (simp add: extract_medications_def)
  then obtain s where s: "loop \<lparr>medications = [], current_med = None\<rparr> ?ents = Inr s"
    "medications s = meds" "well_formed s"
    by (rule assemble_Some)
  from s(2,3) have d: "distinct (map drug_key meds)" by (auto simp: well_formed_def)
  have "length (filter (\<lambda>m. drug_key m = lower (strip name)) meds) = 1"
    if "(''DRUG'', name) \<in> set ?ents" "lower (strip name) \<notin> INVALID_DRUGS" for name
  proof -
    from loop_drug_recorded[OF s(1) that] s(2)
    have "lower (strip name) \<in> set (map drug_key meds)" by simp
    with d show ?thesis by (rule count_distinct_key)
  qed
  with d show ?thesis by blast
qed

text \<open>
  The DRUG entities \<^verbatim>\<open>Aspirin\<close> and \<^verbatim>\<open>aspirin\<close> give the single record of
  \<^verbatim>\<open>Aspirin\<close>.
\<close>

theorem drug_unique_case_insensitive_witness:
  "extract_medications
     (\<lambda>cleaned_text.
        [\<lparr>label_of = ''DRUG'', text_of = ''Aspirin'', start_of = 0, end_of = 1\<rparr>,
         \<lparr>label_of = ''DRUG'', text_of = ''aspirin'', start_of = 2, end_of = 3\<rparr>])
     ''Aspirin or aspirin'' = Inr (Some [[(''drug'', ''Aspirin'')]]) \<and>
   distinct (map drug_key [[(''drug'', ''Aspirin'')]]) \<and>
   length (filter (\<lambda>m. drug_key m = lower (strip ''aspirin'')) [[(''drug'', ''Aspirin'')]]) = 1"
proof -
  let ?nlp = "\<lambda>cleaned_text :: string.
        [\<lparr>label_of = ''DRUG'', text_of = ''Aspirin'', start_of = 0, end_of = 1\<rparr>,
         \<lparr>label_of = ''DRUG'', text_of = ''aspirin'', start_of = 2, end_of = 3\<rparr>]"
  have run: "extract_medications ?nlp ''Aspirin or aspirin'' = Inr (Some [[(''drug'', ''Aspirin'')]])"
    by code_simp
  have ent: "(''DRUG'', ''aspirin'') \<in>
      set (merge_medication_entities (?nlp (clean_text ''Aspirin or aspirin'')))"
    by (simp add: merge_medication_entities_def)
  have valid: "lower (strip ''aspirin'') \<notin> INVALID_DRUGS"
    by code_simp
  from drug_unique_case_insensitive[OF run] ent valid run show ?thesis by blast
qed

text \<open>
  C7: every record that \<^const>\<open>extract_medications\<close> returns has a drug field, and its
  lowercased value is not in the block list: it is not \<^verbatim>\<open>generic\<close> in any casing.
\<close>

theorem invalid_drug_never_recorded:
  assumes "extract_medications nlp_med7 text = Inr (Some meds)" "m \<in> set meds"
  shows "\<exists>d. map_of m ''drug'' = Some d \<and> lower d \<notin> INVALID_DRUGS \<and> lower d \<noteq> ''generic''"
proof -
  from assms(1) have "assemble (merge_medication_entities (nlp_med7 (clean_text text))) = Inr (Some meds)"
    by (simp add: extract_medications_def)
  then obtain s where "medications s = meds" "well_formed s"
    by (rule assemble_Some)
  with assms(2) have "drug_key m \<notin> INVALID_DRUGS" "map_of m ''drug'' \<noteq> None"
    by (auto simp: well_formed_def)
  then show ?thesis by (auto simp: drug_key_def dict_get_def INVALID_DRUGS_def)
qed

text \<open>
  Between \<^verbatim>\<open>Generic\<close> and \<^verbatim>\<open>GENERIC\<close>, only \<^verbatim>\<open>Aspirin\<close> is recorded.
\<close>

theorem invalid_drug_never_recorded_witness:
  "extract_medications
     (\<lambda>cleaned_text.
        [\<lparr>label_of = ''DRUG'', text_of = ''Generic'', start_of = 0, end_of = 1\<rparr>,
         \<lparr>label_of = ''DRUG'', text_of = ''Aspirin'', start_of = 2, end_of = 3\<rparr>,
         \<lparr>label_of = ''DRUG'', text_of = ''GENERIC'', start_of = 4, end_of = 5\<rparr>])
     ''Generic or Aspirin or GENERIC'' = Inr (Some [[(''drug'', ''Aspirin'')]]) \<and>
   [(''drug'', ''Aspirin'')] \<in> set [[(''drug'', ''Aspirin'')]] \<and>
   (\<exists>d. map_of [(''drug'', ''Aspirin'')] ''drug'' = Some d \<and> lower d \<notin> INVALID_DRUGS \<and>
        lower d \<noteq> ''generic'')"
proof -
  let ?nlp = "\<lambda>cleaned_text :: string.
        [\<lparr>label_of = ''DRUG'', text_of = ''Generic'', start_of = 0, end_of = 1\<rparr>,
         \<lparr>label_of = ''DRUG'', text_of = ''Aspirin'', start_of = 2, end_of = 3\<rparr>,
         \<lparr>label_of = ''DRUG'', text_of = ''GENERIC'', start_of = 4, end_of = 5\<rparr>]"
  have run: "extract_medications ?nlp ''Generic or Aspirin or GENERIC'' =
      Inr (Some [[(''drug'', ''Aspirin'')]])"
    by code_simp
  have mem: "[(''drug'', ''Aspirin'')] \<in> set [[(''drug'', ''Aspirin'')]]" by simp
  from invalid_drug_never_recorded[OF run mem] run mem show ?thesis by blast
qed

lemma loop_append:
  "loop s (xs @ ys) = (case loop s xs of Inl err \<Rightarrow> Inl err | Inr s' \<Rightarrow> loop s' ys)"
  by (induction xs arbitrary: s) (auto split: sum.splits)

text \<open>
  C10: a DRUG entity with a blocked name leaves the whole state of the loop as it
  was, the current record included. So an attribute entity behind it is written to the
  record that was current before it, and an entity sequence gives the same result
  with the blocked DRUG entity as without it.
\<close>

theorem invalid_drug_keeps_current_record:
  assumes "lower (strip name) \<in> INVALID_DRUGS" "label \<in> set ATTRIBUTE_LABELS"
    "current_med s = Some (DictRef i)"
  shows "step s (''DRUG'', name) = Inr s \<and>
    loop s [(''DRUG'', name), (label, v)] =
      Inr (s\<lparr>medications := (medications s)[i := dict_set (medications s ! i) (lower label) v]\<rparr>) \<and>
    assemble (pre @ (''DRUG'', name) # post) = assemble (pre @ post)"
proof -
  have skip: "step s' (''DRUG'', name) = Inr s'" for s'
    using assms(1) by (simp add: step_def)
  have "label \<noteq> ''DRUG''" using assms(2) by (rule attribute_label_not_DRUG)
  with assms(2,3) have attach: "step s (label, v) =
      Inr (s\<lparr>medications := (medications s)[i := dict_set (medications s ! i) (lower label) v]\<rparr>)"
    by (simp add: step_def)
  have "loop s' (pre @ (''DRUG'', name) # post) = loop s' (pre @ post)" for s'
    by (simp add: loop_append skip split: sum.splits)
  then have "assemble (pre @ (''DRUG'', name) # post) = assemble (pre @ post)"
    by (simp add: assemble_def)
  with skip attach show ?thesis by simp
qed

text \<open>
  After \<^verbatim>\<open>Aspirin\<close>, the blocked \<^verbatim>\<open>Generic\<close> and a strength, the strength is
  Aspirin's.
\<close>

theorem invalid_drug_keeps_current_record_witness:
  "lower (strip ''Generic'') \<in> INVALID_DRUGS \<and> ''STRENGTH'' \<in> set ATTRIBUTE_LABELS \<and>
   loop \<lparr>medications = [[(''drug'', ''Aspirin'')]], current_med = Some (DictRef 0)\<rparr>
     [(''DRUG'', ''Generic''), (''STRENGTH'', ''500mg'')] =
   Inr \<lparr>medications = [[(''drug'', ''Aspirin''), (''strength'', ''500mg'')]],
        current_med = Some (DictRef 0)\<rparr> \<and>
   assemble [(''DRUG'', ''Aspirin''), (''DRUG'', ''Generic''), (''STRENGTH'', ''500mg'')] =
   Inr (Some [[(''drug'', ''Aspirin''), (''strength'', ''500mg'')]])"
proof -
  let ?s = "\<lparr>medications = [[(''drug'', ''Aspirin'')]], current_med = Some (DictRef 0)\<rparr>"
  have blocked: "lower (strip ''Generic'') \<in> INVALID_DRUGS" by code_simp
  have attr: "''STRENGTH'' \<in> set ATTRIBUTE_LABELS" by (simp add: ATTRIBUTE_LABELS_def)
  have cur: "current_med ?s = Some (DictRef 0)" by simp
  have without: "assemble ([(''DRUG'', ''Aspirin'')] @ [(''STRENGTH'', ''500mg'')]) =
      Inr (Some [[(''drug'', ''Aspirin''), (''strength'', ''500mg'')]])"
    by code_simp
  note th = invalid_drug_keeps_current_record[OF blocked attr cur,
      of "''500mg''" "[(''DRUG'', ''Aspirin'')]" "[(''STRENGTH'', ''500mg'')]"]
  have upd: "?s\<lparr>medications :=
        (medications ?s)[0 := dict_set (medications ?s ! 0) (lower ''STRENGTH'') ''500mg'']\<rparr> =
      \<lparr>medications = [[(''drug'', ''Aspirin''), (''strength'', ''500mg'')]],
       current_med = Some (DictRef 0)\<rparr>"
    by (simp add: dict_set_def lower_attribute_labels)
  have run: "loop ?s [(''DRUG'', ''Generic''), (''STRENGTH'', ''500mg'')] =
      Inr \<lparr>medications = [[(''drug'', ''Aspirin''), (''strength'', ''500mg'')]],
           current_med = Some (DictRef 0)\<rparr>"
    using th[THEN conjunct2, THEN conjunct1] unfolding upd .
  have "assemble [(''DRUG'', ''Aspirin''), (''DRUG'', ''Generic''), (''STRENGTH'', ''500mg'')] =
      Inr (Some [[(''drug'', ''Aspirin''), (''strength'', ''500mg'')]])"
    using th[THEN conjunct2, THEN conjunct2] without by simp
  with blocked attr run show ?thesis by blast
qed

section \<open>Properties of the text normalizer\<close>

lemma has_double_space_iff:
  "has_double_space s \<longleftrightarrow> (\<exists>xs ys. s = xs @ CHR '' '' # CHR '' '' # ys)"
proof
  show "has_double_space s \<Longrightarrow> \<exists>xs ys. s = xs @ CHR '' '' # CHR '' '' # ys"
  proof (induction s rule: has_double_space.induct)
    case (1 a b rest)
    show ?case
    proof (cases "a = CHR '' '' \<and> b = CHR '' ''")
      case True
      then have "a # b # rest = [] @ CHR '' '' # CHR '' '' # rest" by simp
      then show ?thesis by blast
    next
      case False
      with 1 obtain xs ys where "b # rest = xs @ CHR '' '' # CHR '' '' # ys" by auto
      then have "a # b # rest = (a # xs) @ CHR '' '' # CHR '' '' # ys" by simp
      then show ?thesis by blast
    qed
  qed simp_all
next
  assume "\<exists>xs ys. s = xs @ CHR '' '' # CHR '' '' # ys"
  then obtain xs ys where s: "s = xs @ CHR '' '' # CHR '' '' # ys" by blast
  show "has_double_space s" unfolding s
  proof (induction xs)
    case Nil
    show ?case by simp
  next
    case (Cons x xs)
    obtain b rest where "xs @ CHR '' '' # CHR '' '' # ys = b # rest"
      by (cases "xs @ CHR '' '' # CHR '' '' # ys") auto
    with Cons show ?case by simp
  qed
qed

lemma has_double_space_rev: "has_double_space (rev s) = has_double_space s"
proof -
  have "has_double_space (rev s)" if "has_double_space s" for s
  proof -
    from that obtain xs ys where "s = xs @ CHR '' '' # CHR '' '' # ys"
      unfolding has_double_space_iff by blast
    then have "rev s = rev ys @ CHR '' '' # CHR '' '' # rev xs" by simp
    then show ?thesis unfolding has_double_space_iff by blast
  qed
  from this[of s] this[of "rev s"] show ?thesis by auto
qed

lemma has_double_space_dropWhile:
  "has_double_space (dropWhile P s) \<Longrightarrow> has_double_space s"
proof -
  assume "has_double_space (dropWhile P s)"
  then obtain xs ys where "dropWhile P s = xs @ CHR '' '' # CHR '' '' # ys"
    unfolding has_double_space_iff by blast
  then have "s = (takeWhile P s @ xs) @ CHR '' '' # CHR '' '' # ys"
    by (metis append.assoc takeWhile_dropWhile_id)
  then show ?thesis unfolding has_double_space_iff by blast
qed

lemma has_double_space_strip: "has_double_space (strip s) \<Longrightarrow> has_double_space s"
  unfolding strip_def has_double_space_rev
  by (auto dest!: has_double_space_dropWhile simp: has_double_space_rev)

lemma isspace_space: "isspace CHR '' ''"
  by (simp add: isspace_def)

lemma sub_whitespace_no_double_space: "\<not> has_double_space (sub_whitespace u)"
proof (induction u rule: sub_whitespace.induct)
  case 1
  show ?case by simp
next
  case (2 c cs)
  show ?case
  proof (cases "isspace c")
    case True
    with 2 have IH: "\<not> has_double_space (sub_whitespace (dropWhile isspace cs))" by simp
    show ?thesis
    proof (cases "dropWhile isspace cs")
      case Nil
      with True have "sub_whitespace (c # cs) = [CHR '' '']"
        by (simp del: dropWhile_eq_Nil_conv)
      then show ?thesis by simp
    next
      case (Cons x d)
      then have "\<not> isspace x" by (metis hd_dropWhile list.sel(1) list.distinct(1))
      then have "x \<noteq> CHR '' ''" using isspace_space by auto
      with True IH Cons \<open>\<not> isspace x\<close> show ?thesis by simp
    qed
  next
    case False
    with 2 have IH: "\<not> has_double_space (sub_whitespace cs)" by simp
    from False have "c \<noteq> CHR '' ''" using isspace_space by auto
    with False IH show ?thesis by (cases "sub_whitespace cs") simp_all
  qed
qed

lemma strip_not_untrimmed: "\<not> untrimmed (strip s)"
proof -
  let ?d = "dropWhile isspace s"
  let ?k = "dropWhile isspace (rev ?d)"
  have r: "strip s = rev ?k" by (simp add: strip_def)
  show ?thesis
  proof (cases "strip s = []")
    case True
    then show ?thesis by (simp add: untrimmed_def)
  next
    case False
    then have k: "?k \<noteq> []" using r by simp
    then have "\<not> isspace (hd ?k)" by (rule hd_dropWhile)
    then have last: "\<not> isspace (last (strip s))"
      using k r by (simp add: last_rev)
    have "rev ?d = takeWhile isspace (rev ?d) @ ?k" by simp
    then have "?d = rev ?k @ rev (takeWhile isspace (rev ?d))"
      by (metis rev_append rev_rev_ident)
    then have d: "?d = strip s @ rev (takeWhile isspace (rev ?d))" using r by simp
    with False have "?d \<noteq> []" by (metis append_is_Nil_conv)
    then have "\<not> isspace (hd ?d)" by (rule hd_dropWhile)
    moreover have "hd ?d = hd (strip s)" using d False by (metis hd_append2)
    ultimately have "\<not> isspace (hd (strip s))" by simp
    with last show ?thesis by (simp add: untrimmed_def)
  qed
qed

lemma clean_text_normal: "\<not> has_double_space (clean_text t) \<and> \<not> untrimmed (clean_text t)"
  unfolding clean_text_def
  using has_double_space_strip sub_whitespace_no_double_space strip_not_untrimmed by blast

lemma clean_text_example:
  "clean_text ''  helloWorld  fooBar baz xYZ '' = ''hello. World foo. Bar baz x. YZ''"
  by (simp add: clean_text_def strip_def isspace_def is_az_def is_AZ_def)

text \<open>
  C9: for every text, the normalizer applied twice gives a text with no two spaces in
  a row and with no whitespace at its start or at its end.
\<close>

theorem clean_text_twice_normal:
  "\<not> has_double_space (clean_text (clean_text t)) \<and> \<not> untrimmed (clean_text (clean_text t))"
  by (rule clean_text_normal)

section \<open>Properties of the dictionary test extractor\<close>

lemma bucket_filter:
  "bucket matches (patho, radio) =
     (patho @ map snd (filter (\<lambda>(label, span_text). label = ''PATHOLOGY TEST'') matches),
      radio @ map snd (filter (\<lambda>(label, span_text). label = ''RADIOLOGY TEST'') matches))"
  by (induction matches arbitrary: patho radio) auto

lemma extract_tests_sides:
  "extract_tests phrase_matcher list_of text pathology_terms radiology_terms =
     (let matches = phrase_matcher (add_patterns pathology_terms radiology_terms) (clean_text text)
      in (or_None (list_of (matched ''PATHOLOGY TEST'' matches)),
          or_None (list_of (matched ''RADIOLOGY TEST'' matches))))"
  by (simp add: extract_tests_def Let_def bucket_filter matched_def)

lemma or_None_simps:
  "or_None xs = None \<longleftrightarrow> xs = []" "or_None xs = Some ys \<longleftrightarrow> xs = ys \<and> ys \<noteq> []"
  by (auto simp: or_None_def)

lemma finite_matched: "finite (matched key matches)"
  by (simp add: matched_def)

text \<open>
  C8: let \<open>list_of\<close> read a finite set as a list of its elements, each once, and let
  the matcher report matches only under keys that were added to it. Then each side of
  the pair that \<^const>\<open>extract_tests\<close> returns is null exactly when no span text was
  matched under its own key, whatever the other side is; a side that is not null
  holds the span texts matched under its key, each once; and when both term lists are
  empty nothing is added to the matcher and both sides are null.
\<close>

theorem extract_tests_null_per_side:
  fixes phrase_matcher :: matcher
  assumes listing: "\<forall>S. finite S \<longrightarrow> set (list_of S) = S \<and> distinct (list_of S)"
    and registered: "\<forall>patterns t. fst ` set (phrase_matcher patterns t) \<subseteq> fst ` set patterns"
  shows
    "(fst (extract_tests phrase_matcher list_of text pathology_terms radiology_terms) = None \<longleftrightarrow>
        matched ''PATHOLOGY TEST''
          (phrase_matcher (add_patterns pathology_terms radiology_terms) (clean_text text)) = {}) \<and>
     (snd (extract_tests phrase_matcher list_of text pathology_terms radiology_terms) = None \<longleftrightarrow>
        matched ''RADIOLOGY TEST''
          (phrase_matcher (add_patterns pathology_terms radiology_terms) (clean_text text)) = {}) \<and>
     (\<forall>ys. fst (extract_tests phrase_matcher list_of text pathology_terms radiology_terms) = Some ys
        \<longrightarrow> distinct ys \<and>
            set ys = matched ''PATHOLOGY TEST''
              (phrase_matcher (add_patterns pathology_terms radiology_terms) (clean_text text))) \<and>
     (\<forall>ys. snd (extract_tests phrase_matcher list_of text pathology_terms radiology_terms) = Some ys
        \<longrightarrow> distinct ys \<and>
            set ys = matched ''RADIOLOGY TEST''
              (phrase_matcher (add_patterns pathology_terms radiology_terms) (clean_text text))) \<and>
     (pathology_terms = [] \<and> radiology_terms = [] \<longrightarrow>
        add_patterns pathology_terms radiology_terms = [] \<and>
        extract_tests phrase_matcher list_of text pathology_terms radiology_terms = (None, None))"
proof -
  let ?M = "phrase_matcher (add_patterns pathology_terms radiology_terms) (clean_text text)"
  have l: "set (list_of (matched key ?M)) = matched key ?M" "distinct (list_of (matched key ?M))"
    for key using listing finite_matched by blast+
  have nil: "list_of (matched key ?M) = [] \<longleftrightarrow> matched key ?M = {}" for key
    using l(1)[of key] by (metis set_empty)
  have sides: "fst (extract_tests phrase_matcher list_of text pathology_terms radiology_terms) =
        or_None (list_of (matched ''PATHOLOGY TEST'' ?M))"
      "snd (extract_tests phrase_matcher list_of text pathology_terms radiology_terms) =
        or_None (list_of (matched ''RADIOLOGY TEST'' ?M))"
    by (simp_all add: extract_tests_sides Let_def)
  have empty: "extract_tests phrase_matcher list_of text pathology_terms radiology_terms = (None, None)"
    "add_patterns pathology_terms radiology_terms = []"
    if "pathology_terms = []" "radiology_terms = []"
  proof -
    show a: "add_patterns pathology_terms radiology_terms = []"
      using that by (simp add: add_patterns_def)
    from registered have "fst ` set ?M \<subseteq> fst ` set (add_patterns pathology_terms radiology_terms)"
      by blast
    with a have "?M = []" by simp
    then have "matched key ?M = {}" for key by (simp add: matched_def)
    then show "extract_tests phrase_matcher list_of text pathology_terms radiology_terms = (None, None)"
      using nil by (simp add: extract_tests_sides Let_def or_None_simps)
  qed
  show ?thesis
    unfolding sides or_None_simps using nil l empty by auto
qed

lemma word_matcher_registered:
  "fst ` set (word_matcher patterns t) \<subseteq> fst ` set patterns"
  by (force simp: word_matcher_def)

text \<open>
  With the term \<^verbatim>\<open>cbc\<close> for pathology and \<^verbatim>\<open>MRI\<close> for radiology, the text
  \<^verbatim>\<open>CBC and cbc then CBC\<close> gives \<^verbatim>\<open>CBC\<close> and \<^verbatim>\<open>cbc\<close> once each and no radiology
  test; with no terms it gives nothing.
\<close>

theorem extract_tests_null_per_side_witness:
  "extract_tests word_matcher sorted_list_of_set ''CBC and cbc then CBC'' [''cbc''] [''MRI''] =
     (Some [''CBC'', ''cbc''], None) \<and>
   matched ''RADIOLOGY TEST''
     (word_matcher (add_patterns [''cbc''] [''MRI'']) (clean_text ''CBC and cbc then CBC'')) = {} \<and>
   extract_tests word_matcher sorted_list_of_set ''CBC and cbc then CBC'' [] [] = (None, None)"
proof -
  have listing: "\<forall>S :: string set. finite S \<longrightarrow>
      set (sorted_list_of_set S) = S \<and> distinct (sorted_list_of_set S)"
    by simp
  have registered: "\<forall>patterns t. fst ` set (word_matcher patterns t) \<subseteq> fst ` set patterns"
    using word_matcher_registered by blast
  note th = extract_tests_null_per_side[OF listing registered]
  have run: "extract_tests word_matcher sorted_list_of_set ''CBC and cbc then CBC'' [''cbc''] [''MRI''] =
     (Some [''CBC'', ''cbc''], None)"
    by code_simp
  from th[of "''CBC and cbc then CBC''" "[''cbc'']" "[''MRI'']"] run
  have radio: "matched ''RADIOLOGY TEST''
     (word_matcher (add_patterns [''cbc''] [''MRI'']) (clean_text ''CBC and cbc then CBC'')) = {}"
    by simp
  from th[of "''CBC and cbc then CBC''" "[]" "[]"]
  have "extract_tests word_matcher sorted_list_of_set ''CBC and cbc then CBC'' [] [] = (None, None)"
    by simp
  with run radio show ?thesis by blast
qed

end
